theory Spec2Isabelle
  imports Main
begin

section \<open>Data model\<close>

text \<open>
  The highlighters of \<^verbatim>\<open>src/syntaxhighlighter.cpp\<close> read a \<^verbatim>\<open>std::wstring\<close> and
  report spans through a callback \<^verbatim>\<open>highlight(start, end, kind)\<close>. A code unit
  (\<^verbatim>\<open>wchar_t\<close>) is modelled by its numeric value, a string by the list of its code
  units, and the calls of the callback by the list of their arguments, in the order of
  the calls. Positions are C++ \<^verbatim>\<open>int\<close>s; they are modelled as unbounded integers,
  which agrees with the code for every string shorter than \<open>2^31\<close> code units.
\<close>

type_synonym wchar = nat
type_synonym wstring = "wchar list"

definition wstr :: "string \<Rightarrow> wstring" where
  "wstr cs = map of_char cs"

datatype TextKind = LeadingWhitespace | Escape | Markup | Placeholder

type_synonym span = "int \<times> int \<times> TextKind"

definition within :: "int \<Rightarrow> span \<Rightarrow> bool" where
  "within L sp = (case sp of (a, b, k) \<Rightarrow> 0 \<le> a \<and> a < b \<and> b \<le> L)"

definition valid_span :: "wstring \<Rightarrow> span \<Rightarrow> bool" where
  "valid_span s sp = (case sp of (a, b, k) \<Rightarrow> 0 \<le> a \<and> a < b \<and> b \<le> int (length s))"

definition span_start :: "span \<Rightarrow> int" where
  "span_start sp = fst sp"

definition span_kind :: "span \<Rightarrow> TextKind" where
  "span_kind sp = snd (snd sp)"

text \<open>
  \<^verbatim>\<open>u_isblank\<close> belongs to the ICU library, not to this repository. The functions below
  take the blank test as a parameter \<open>blank\<close>; the general theorems hold for every such
  test (under the hypotheses they state). For the concrete strings of the specification
  the test is instantiated with ICU's documented behaviour: TAB, SPACE and the code
  points of general category Zs.
\<close>

definition u_isblank :: "wchar \<Rightarrow> bool" where
  "u_isblank c =
     (if c \<le> 0x9F then c = 0x09 \<or> c = 0x20
      else c = 0xA0 \<or> c = 0x1680 \<or> (0x2000 \<le> c \<and> c \<le> 0x200A)
           \<or> c = 0x202F \<or> c = 0x205F \<or> c = 0x3000)"

section \<open>BasicSyntaxHighlighter\<close>

text \<open>The first loop of \<^verbatim>\<open>Highlight\<close>: \<open>n\<close> is \<^verbatim>\<open>i - s.begin()\<close>.\<close>

fun leading_loop :: "(wchar \<Rightarrow> bool) \<Rightarrow> int \<Rightarrow> wstring \<Rightarrow> span list" where
  "leading_loop blank n [] = []"
| "leading_loop blank n (c # cs) =
     (if \<not> blank c
      then (if n \<noteq> 0 then [(0, n, LeadingWhitespace)] else [])
      else leading_loop blank (n + 1) cs)"

text \<open>The second loop, over the reversed string: \<open>n\<close> is \<^verbatim>\<open>i - s.rbegin()\<close>.\<close>

fun trailing_loop :: "(wchar \<Rightarrow> bool) \<Rightarrow> int \<Rightarrow> int \<Rightarrow> wstring \<Rightarrow> span list" where
  "trailing_loop blank len n [] = []"
| "trailing_loop blank len n (c # cs) =
     (if \<not> blank c
      then (if n \<noteq> 0 then [(len - n, len, LeadingWhitespace)] else [])
      else trailing_loop blank len (n + 1) cs)"

text \<open>The letters of the \<^verbatim>\<open>switch\<close> after a backslash.\<close>

definition is_escape_letter :: "wchar \<Rightarrow> bool" where
  "is_escape_letter c = (c \<in> set (wstr ''0abfnrtv'') \<or> c = 0x5C)"

text \<open>
  The \<^verbatim>\<open>if / else if / else if\<close> chain at the head of the third loop's body: what it
  emits at the code point \<open>c\<close> at position \<open>pos\<close>, and the new value of
  \<^verbatim>\<open>blank_block_pos\<close>.
\<close>

definition blank_step :: "(wchar \<Rightarrow> bool) \<Rightarrow> int \<Rightarrow> int \<Rightarrow> wchar \<Rightarrow> span list \<times> int" where
  "blank_step blank pos blank_block_pos c =
     (if c = 0xA0 then ([(pos, pos + 1, LeadingWhitespace)], blank_block_pos)
      else if blank c then ([], if blank_block_pos = - 1 then pos else blank_block_pos)
      else if blank_block_pos \<noteq> - 1
        then (if pos - blank_block_pos \<ge> 2
              then [(blank_block_pos, pos, LeadingWhitespace)] else [], - 1)
      else ([], blank_block_pos))"

text \<open>
  The third loop. The list is the part of the string from the iterator \<^verbatim>\<open>i\<close> on,
  \<open>pos\<close> is \<^verbatim>\<open>i - s.begin()\<close>. After a backslash the iterator is advanced inside the
  body (\<^verbatim>\<open>++i\<close>), and once more by the loop header: the code point after the backslash
  is only looked at by the \<^verbatim>\<open>switch\<close>. A backslash at the very end leaves the loop.
\<close>

fun forward_loop :: "(wchar \<Rightarrow> bool) \<Rightarrow> int \<Rightarrow> int \<Rightarrow> wstring \<Rightarrow> span list" where
  "forward_loop blank pos blank_block_pos [] = []"
| "forward_loop blank pos blank_block_pos (c # cs) =
     (case blank_step blank pos blank_block_pos c of (out, blank_block_pos') \<Rightarrow>
        if c = 0x5C then
          (case cs of
             [] \<Rightarrow> out
           | d # ds \<Rightarrow>
               out @ (if is_escape_letter d then [(pos, pos + 2, Escape)] else [])
                   @ forward_loop blank (pos + 2) blank_block_pos' ds)
        else out @ forward_loop blank (pos + 1) blank_block_pos' cs)"

definition BasicHighlight :: "(wchar \<Rightarrow> bool) \<Rightarrow> wstring \<Rightarrow> span list" where
  "BasicHighlight blank s =
     (if s = [] then []
      else leading_loop blank 0 s
         @ trailing_loop blank (int (length s)) 0 (rev s)
         @ forward_loop blank 0 (- 1) s)"

text \<open>
  A list of spans whose starts increase strictly and are all at least \<open>lo\<close>.
\<close>

definition starts_from :: "int \<Rightarrow> span list \<Rightarrow> bool" where
  "starts_from lo out =
     (sorted_wrt (<) (map span_start out) \<and> (\<forall>x \<in> set out. lo \<le> span_start x))"

section \<open>The regular expression engine\<close>

text \<open>
  \<^verbatim>\<open>std::wregex\<close>, \<^verbatim>\<open>std::wsregex_iterator\<close> and \<^verbatim>\<open>std::regex_search\<close> belong to the C++
  standard library. A compiled expression is modelled by the pattern text and the flags
  it was constructed from; the engine is a parameter: \<open>iterate re s\<close> is the run of a
  \<^verbatim>\<open>wsregex_iterator\<close> over \<open>s\<close>, that is the matches it yields one after the other
  until it reaches the end iterator or throws a \<^verbatim>\<open>std::regex_error\<close>.
\<close>

datatype error_type =
    error_collate | error_ctype | error_escape | error_backref | error_brack
  | error_paren | error_brace | error_badbrace | error_range | error_space
  | error_badrepeat | error_complexity | error_stack

datatype syntax_option_type = ECMAScript | optimize

datatype wregex = basic_regex string "syntax_option_type list"

text \<open>
  What \<^verbatim>\<open>Highlight\<close> reads of a \<^verbatim>\<open>match_results\<close>: \<^verbatim>\<open>empty()\<close> (which is
  \<^verbatim>\<open>size() == 0\<close>: the object holds no match), \<^verbatim>\<open>position()\<close> and \<^verbatim>\<open>length()\<close>.
\<close>

record match_results =
  m_size :: nat
  m_position :: int
  m_length :: int

definition m_empty :: "match_results \<Rightarrow> bool" where
  "m_empty m = (m_size m = 0)"

datatype regex_iterator =
    End
  | Next match_results regex_iterator
  | Throws error_type

type_synonym regex_iterate = "wregex \<Rightarrow> wstring \<Rightarrow> regex_iterator"
type_synonym regex_search = "wregex \<Rightarrow> wstring \<Rightarrow> error_type + bool"

section \<open>The patterns\<close>

text \<open>
  The raw string literals of the source. A string literal of HOL cannot hold a
  backslash or a quote, so these three characters are named.
\<close>

definition bsl :: string where
  "bsl = [CHR 0x5C]"

definition dq :: string where
  "dq = [CHR 0x22]"

definition sq :: string where
  "sq = [CHR 0x27]"

definition RE_HTML_MARKUP :: wregex where
  "RE_HTML_MARKUP = basic_regex
     (''(<'' @ bsl @ ''/?[a-zA-Z0-9:-]+('' @ bsl @ ''s+[-:'' @ bsl @ ''w]+(=([-:'' @ bsl @ ''w+]|''
        @ dq @ ''[^'' @ dq @ '']*'' @ dq @ ''|'' @ sq @ ''[^'' @ sq @ '']*'' @ sq
        @ ''))?)*'' @ bsl @ ''s*'' @ bsl @ ''/?>)|(&[^ ;]+;)'')
     [ECMAScript, optimize]"

definition RE_PHP_FORMAT :: wregex where
  "RE_PHP_FORMAT = basic_regex
     (''%('' @ bsl @ ''d+'' @ bsl @ ''$)?[-+]{0,2}([ 0]|'' @ sq @ ''.)?-?'' @ bsl @ ''d*(''
        @ bsl @ ''..?'' @ bsl @ ''d+)?[%bcdeEfFgGosuxX]'')
     [ECMAScript, optimize]"

definition RE_C_FORMAT :: wregex where
  "RE_C_FORMAT = basic_regex
     (''%('' @ bsl @ ''d+'' @ bsl @ ''$)?[-+ #0]{0,5}('' @ bsl @ ''d+|'' @ bsl @ ''*)?(''
        @ bsl @ ''.('' @ bsl @ ''d+|'' @ bsl @ ''*))?(hh|ll|[hljztL])?[%csdioxXufFeEaAgGnp]'')
     [ECMAScript, optimize]"

definition RE_PYTHON_FORMAT :: wregex where
  "RE_PYTHON_FORMAT = basic_regex
     ((''(%('' @ bsl @ ''('' @ bsl @ ''w+'' @ bsl @ ''))?[-+ #0]?('' @ bsl @ ''d+|'' @ bsl @ ''*)?(''
        @ bsl @ ''.('' @ bsl @ ''d+|'' @ bsl @ ''*))?[hlL]?[diouxXeEfFgGcrs%])'')
      @ ''|''
      @ (''('' @ bsl @ ''{([^{}])*'' @ bsl @ ''})''))
     [ECMAScript, optimize]"

definition RE_RUBY_FORMAT :: wregex where
  "RE_RUBY_FORMAT = basic_regex
     (''%('' @ bsl @ ''d+'' @ bsl @ ''$)?[-+ #0]{0,5}('' @ bsl @ ''d+|'' @ bsl @ ''*)?(''
        @ bsl @ ''.('' @ bsl @ ''d+|'' @ bsl @ ''*))?(hh|ll|[hljztL])?[%csdioxXufFeEaAgGnp]'')
     [ECMAScript, optimize]"

definition RE_COMMON_PLACEHOLDERS :: wregex where
  "RE_COMMON_PLACEHOLDERS = basic_regex
     (''%['' @ bsl @ ''w.-]+%|%?'' @ bsl @ ''{['' @ bsl @ ''w.-]+'' @ bsl @ ''}|''
        @ bsl @ ''{'' @ bsl @ ''{['' @ bsl @ ''w.-]+'' @ bsl @ ''}'' @ bsl @ ''}|[@%]['' @ bsl @ ''w-]+|''
        @ dq @ '':['' @ bsl @ ''w-]+'' @ dq @ ''|'' @ sq @ '':['' @ bsl @ ''w-]+'' @ sq)
     [ECMAScript, optimize]"

section \<open>RegexSyntaxHighlighter and CompositeSyntaxHighlighter\<close>

text \<open>
  A call of \<^verbatim>\<open>Highlight\<close> is modelled by the spans it has passed to the callback and by
  how it ended: \<open>None\<close> when it returned, \<open>Some e\<close> when the \<^verbatim>\<open>regex_error\<close> with code
  \<open>e\<close> left it. The spans emitted before an exception stay emitted.

  \<open>regex_loop\<close> is the body of the \<^verbatim>\<open>try\<close> block, \<open>RegexHighlight\<close> adds the
  handler. An iterator is either the end iterator, or holds a match and the iterator
  that incrementing it gives, or stands for a search that throws (the constructor's
  first search, or the search of an increment). \<^verbatim>\<open>auto match = *next++\<close> increments
  \<^verbatim>\<open>next\<close> before the old value is dereferenced: when the search of the increment
  throws, the current match has not reached the callback. \<open>report_match\<close> is the
  rest of the loop's body.
\<close>

definition report_match :: "TextKind \<Rightarrow> match_results \<Rightarrow> span list" where
  "report_match m_kind match =
     (if m_empty match then []
      else [(m_position match, m_position match + m_length match, m_kind)])"

fun regex_loop :: "regex_iterator \<Rightarrow> TextKind \<Rightarrow> span list \<times> error_type option" where
  "regex_loop End m_kind = ([], None)"
| "regex_loop (Throws e) m_kind = ([], Some e)"
| "regex_loop (Next match next) m_kind =
     (case next of
        Throws e \<Rightarrow> ([], Some e)
      | _ \<Rightarrow>
          (case regex_loop next m_kind of (out, r) \<Rightarrow> (report_match m_kind match @ out, r)))"

definition RegexHighlight :: "regex_iterator \<Rightarrow> TextKind \<Rightarrow> span list \<times> error_type option" where
  "RegexHighlight it m_kind =
     (case regex_loop it m_kind of
        (out, None) \<Rightarrow> (out, None)
      | (out, Some e) \<Rightarrow>
          if e = error_complexity \<or> e = error_stack then (out, None) else (out, Some e))"

text \<open>The spans that the loop's body emits for a list of matches.\<close>

definition reported :: "TextKind \<Rightarrow> match_results list \<Rightarrow> span list" where
  "reported m_kind ms = concat (map (report_match m_kind) ms)"

datatype SyntaxHighlighter =
    BasicSyntaxHighlighter
  | CompositeSyntaxHighlighter "SyntaxHighlighter list"
  | RegexSyntaxHighlighter wregex TextKind

fun Highlight :: "(wchar \<Rightarrow> bool) \<Rightarrow> regex_iterate \<Rightarrow> SyntaxHighlighter \<Rightarrow> wstring
                    \<Rightarrow> span list \<times> error_type option"
  and Highlight_subs :: "(wchar \<Rightarrow> bool) \<Rightarrow> regex_iterate \<Rightarrow> SyntaxHighlighter list \<Rightarrow> wstring
                    \<Rightarrow> span list \<times> error_type option" where
  "Highlight blank iterate BasicSyntaxHighlighter s = (BasicHighlight blank s, None)"
| "Highlight blank iterate (RegexSyntaxHighlighter m_re m_kind) s =
     RegexHighlight (iterate m_re s) m_kind"
| "Highlight blank iterate (CompositeSyntaxHighlighter m_sub) s =
     Highlight_subs blank iterate m_sub s"
| "Highlight_subs blank iterate [] s = ([], None)"
| "Highlight_subs blank iterate (h # hs) s =
     (case Highlight blank iterate h s of
        (out, Some e) \<Rightarrow> (out, Some e)
      | (out, None) \<Rightarrow>
          (case Highlight_subs blank iterate hs s of (out', r) \<Rightarrow> (out @ out', r)))"

section \<open>SyntaxHighlighter::ForItem\<close>

text \<open>
  What \<^verbatim>\<open>ForItem\<close> reads of a \<^verbatim>\<open>CatalogItem\<close> (declared in \<^verbatim>\<open>catalog.h\<close>): the
  format flag, the string, whether there is a plural, and the plural string. The two
  strings are held as the wide strings that \<^verbatim>\<open>str::to_wstring\<close> gives.
\<close>

record CatalogItem =
  GetFormatFlag :: string
  GetString :: wstring
  HasPlural :: bool
  GetPluralString :: wstring

text \<open>
  Modelled from the spec: the values of the enumeration \<^verbatim>\<open>TextKind\<close> are declared in
  \<^verbatim>\<open>syntaxhighlighter.h\<close>, which is not among the sources. The specification calls
  \<^verbatim>\<open>kindsMask\<close> a set of \<^verbatim>\<open>TextKind\<close> flags, so the mask is a set of kinds,
  \<^verbatim>\<open>kindsMask & K\<close> is membership of \<open>K\<close>, and
  \<^verbatim>\<open>kindsMask & (LeadingWhitespace | Escape)\<close> is \<open>wants_basic\<close>.
\<close>

definition wants_basic :: "TextKind set \<Rightarrow> bool" where
  "wants_basic kindsMask = (LeadingWhitespace \<in> kindsMask \<or> Escape \<in> kindsMask)"

text \<open>
  \<^verbatim>\<open>regex_search(string) || (HasPlural() && regex_search(plural))\<close>: the second search
  runs only when the first found nothing. A \<^verbatim>\<open>regex_error\<close> of a search is not caught
  in \<^verbatim>\<open>ForItem\<close>.
\<close>

definition sniff :: "regex_search \<Rightarrow> wregex \<Rightarrow> CatalogItem \<Rightarrow> error_type + bool" where
  "sniff search re item =
     (case search re (GetString item) of
        Inl e \<Rightarrow> Inl e
      | Inr True \<Rightarrow> Inr True
      | Inr False \<Rightarrow>
          if HasPlural item then search re (GetPluralString item) else Inr False)"

definition needsHTML :: "regex_search \<Rightarrow> CatalogItem \<Rightarrow> TextKind set \<Rightarrow> error_type + bool" where
  "needsHTML search item kindsMask =
     (if Markup \<in> kindsMask then sniff search RE_HTML_MARKUP item else Inr False)"

definition needsGenericPlaceholders ::
    "regex_search \<Rightarrow> CatalogItem \<Rightarrow> TextKind set \<Rightarrow> error_type + bool" where
  "needsGenericPlaceholders search item kindsMask =
     (if Placeholder \<in> kindsMask then sniff search RE_COMMON_PLACEHOLDERS item else Inr False)"

text \<open>The function-local statics of \<^verbatim>\<open>ForItem\<close>, each constructed once.\<close>

definition basic :: SyntaxHighlighter where
  "basic = BasicSyntaxHighlighter"

definition html :: SyntaxHighlighter where
  "html = RegexSyntaxHighlighter RE_HTML_MARKUP Markup"

definition placeholders :: SyntaxHighlighter where
  "placeholders = RegexSyntaxHighlighter RE_COMMON_PLACEHOLDERS Placeholder"

definition php_format :: SyntaxHighlighter where
  "php_format = RegexSyntaxHighlighter RE_PHP_FORMAT Placeholder"

definition c_format :: SyntaxHighlighter where
  "c_format = RegexSyntaxHighlighter RE_C_FORMAT Placeholder"

definition python_format :: SyntaxHighlighter where
  "python_format = RegexSyntaxHighlighter RE_PYTHON_FORMAT Placeholder"

definition ruby_format :: SyntaxHighlighter where
  "ruby_format = RegexSyntaxHighlighter RE_RUBY_FORMAT Placeholder"

text \<open>\<^verbatim>\<open>CompositeSyntaxHighlighter::Add\<close> is \<^verbatim>\<open>m_sub.push_back(h)\<close>.\<close>

definition Add :: "SyntaxHighlighter \<Rightarrow> SyntaxHighlighter list \<Rightarrow> SyntaxHighlighter list" where
  "Add h m_sub = m_sub @ [h]"

text \<open>The \<^verbatim>\<open>if (kindsMask & Placeholder)\<close> block with its chain on the format flag.\<close>

definition add_format ::
    "TextKind set \<Rightarrow> string \<Rightarrow> SyntaxHighlighter list \<Rightarrow> SyntaxHighlighter list" where
  "add_format kindsMask formatFlag m_sub =
     (if Placeholder \<in> kindsMask then
        (if formatFlag = ''php'' then Add php_format m_sub
         else if formatFlag = ''c'' then Add c_format m_sub
         else if formatFlag = ''python'' then Add python_format m_sub
         else if formatFlag = ''ruby'' then Add ruby_format m_sub
         else m_sub)
      else m_sub)"

text \<open>
  The result is \<open>Inl e\<close> when a sniffing search throws, \<open>Inr None\<close> for the null
  pointer, \<open>Inr (Some h)\<close> for a highlighter.
\<close>

definition ForItem ::
    "regex_search \<Rightarrow> CatalogItem \<Rightarrow> TextKind set \<Rightarrow> error_type + SyntaxHighlighter option" where
  "ForItem search item kindsMask =
     (let formatFlag = GetFormatFlag item in
      case needsHTML search item kindsMask of
        Inl e \<Rightarrow> Inl e
      | Inr needs_html \<Rightarrow>
     (case needsGenericPlaceholders search item kindsMask of
        Inl e \<Rightarrow> Inl e
      | Inr needs_generic \<Rightarrow>
          if \<not> needs_html \<and> \<not> needs_generic \<and> formatFlag = [] then
            (if wants_basic kindsMask then Inr (Some basic) else Inr None)
          else
            let all0 = [];
                all1 = (if needs_html then Add html all0 else all0);
                all2 = (if needs_generic then Add placeholders all1 else all1);
                all3 = add_format kindsMask formatFlag all2;
                all4 = (if wants_basic kindsMask then Add basic all3 else all3)
            in Inr (Some (CompositeSyntaxHighlighter all4))))"

section \<open>What the patterns can match\<close>

text \<open>
  The six patterns use no anchor, look-ahead or back-reference, so the strings that an
  ECMAScript engine can report as a match of one of them are words of the regular
  language the pattern denotes. The patterns are written out as regular expressions
  over predicates on code units.
\<close>

datatype rx =
    Zero
  | Eps
  | Cls "wchar \<Rightarrow> bool"
  | Seq rx rx
  | Alt rx rx
  | Star rx

text \<open>The language of a regular expression.\<close>

inductive_set star :: "wstring set \<Rightarrow> wstring set" for A :: "wstring set" where
  star_empty: "[] \<in> star A"
| star_step: "u \<in> A \<Longrightarrow> v \<in> star A \<Longrightarrow> u @ v \<in> star A"

fun lang :: "rx \<Rightarrow> wstring set" where
  "lang Zero = {}"
| "lang Eps = {[]}"
| "lang (Cls p) = {[c] | c. p c}"
| "lang (Seq a b) = {u @ v | u v. u \<in> lang a \<and> v \<in> lang b}"
| "lang (Alt a b) = lang a \<union> lang b"
| "lang (Star a) = star (lang a)"

text \<open>
  Membership is decided by derivatives: \<open>rx_matches r w\<close> holds exactly when \<open>w\<close> is
  a word of \<open>lang r\<close> (lemma \<open>rx_matches_lang\<close> below).
\<close>

fun nullable :: "rx \<Rightarrow> bool" where
  "nullable Zero = False"
| "nullable Eps = True"
| "nullable (Cls p) = False"
| "nullable (Seq a b) = (nullable a \<and> nullable b)"
| "nullable (Alt a b) = (nullable a \<or> nullable b)"
| "nullable (Star a) = True"

fun deriv :: "wchar \<Rightarrow> rx \<Rightarrow> rx" where
  "deriv c Zero = Zero"
| "deriv c Eps = Zero"
| "deriv c (Cls p) = (if p c then Eps else Zero)"
| "deriv c (Seq a b) =
     (if nullable a then Alt (Seq (deriv c a) b) (deriv c b) else Seq (deriv c a) b)"
| "deriv c (Alt a b) = Alt (deriv c a) (deriv c b)"
| "deriv c (Star a) = Seq (deriv c a) (Star a)"

fun rx_matches :: "rx \<Rightarrow> wstring \<Rightarrow> bool" where
  "rx_matches r [] = nullable r"
| "rx_matches r (c # cs) = rx_matches (deriv c r) cs"

definition Plus :: "rx \<Rightarrow> rx" where
  "Plus r = Seq r (Star r)"

definition Opt :: "rx \<Rightarrow> rx" where
  "Opt r = Alt r Eps"

fun Upto :: "nat \<Rightarrow> rx \<Rightarrow> rx" where
  "Upto 0 r = Eps"
| "Upto (Suc n) r = Opt (Seq r (Upto n r))"

fun Seqs :: "rx list \<Rightarrow> rx" where
  "Seqs [] = Eps"
| "Seqs [r] = r"
| "Seqs (r # rs) = Seq r (Seqs rs)"

fun Alts :: "rx list \<Rightarrow> rx" where
  "Alts [] = Zero"
| "Alts [r] = r"
| "Alts (r # rs) = Alt r (Alts rs)"

definition Lit :: "string \<Rightarrow> rx" where
  "Lit cs = Seqs (map (\<lambda>c. Cls (\<lambda>x. x = of_char c)) cs)"

definition one_of :: "string \<Rightarrow> wchar \<Rightarrow> bool" where
  "one_of cs x = (x \<in> set (wstr cs))"

text \<open>The ranges \<^verbatim>\<open>a-zA-Z0-9\<close> of a bracket expression.\<close>

definition alnum :: "wchar \<Rightarrow> bool" where
  "alnum x = ((97 \<le> x \<and> x \<le> 122) \<or> (65 \<le> x \<and> x \<le> 90) \<or> (48 \<le> x \<and> x \<le> 57))"

text \<open>
  Which code units the classes \<^verbatim>\<open>\d\<close>, \<^verbatim>\<open>\w\<close>, \<^verbatim>\<open>\s\<close> and the dot match depends
  on the regex traits (the locale) and on the implementation, so they are parameters of
  the languages. \<open>classic_traits\<close> are the classes of the "C" locale.
\<close>

record regex_traits =
  class_d :: "wchar \<Rightarrow> bool"
  class_w :: "wchar \<Rightarrow> bool"
  class_s :: "wchar \<Rightarrow> bool"
  class_dot :: "wchar \<Rightarrow> bool"

definition classic_traits :: regex_traits where
  "classic_traits =
     \<lparr>class_d = (\<lambda>x. 48 \<le> x \<and> x \<le> 57),
      class_w = (\<lambda>x. alnum x \<or> x = 95),
      class_s = (\<lambda>x. x = 32 \<or> (9 \<le> x \<and> x \<le> 13)),
      class_dot = (\<lambda>x. x \<noteq> 10 \<and> x \<noteq> 13 \<and> x \<noteq> 0x2028 \<and> x \<noteq> 0x2029)\<rparr>"

definition GR_HTML_MARKUP :: "regex_traits \<Rightarrow> rx" where
  "GR_HTML_MARKUP tr =
     Alt (Seqs [Lit ''<'', Opt (Lit ''/''), Plus (Cls (\<lambda>x. alnum x \<or> one_of '':-'' x)),
                Star (Seqs [Plus (Cls (class_s tr)), Plus (Cls (\<lambda>x. one_of ''-:'' x \<or> class_w tr x)),
                            Opt (Seq (Lit ''='')
                                  (Alts [Cls (\<lambda>x. one_of ''-:+'' x \<or> class_w tr x),
                                         Seqs [Lit dq, Star (Cls (\<lambda>x. \<not> one_of dq x)), Lit dq],
                                         Seqs [Lit sq, Star (Cls (\<lambda>x. \<not> one_of sq x)), Lit sq]]))]),
                Star (Cls (class_s tr)), Opt (Lit ''/''), Lit ''>''])
         (Seqs [Lit ''&'', Plus (Cls (\<lambda>x. \<not> one_of '' ;'' x)), Lit '';''])"

definition GR_PHP_FORMAT :: "regex_traits \<Rightarrow> rx" where
  "GR_PHP_FORMAT tr =
     Seqs [Lit ''%'', Opt (Seq (Plus (Cls (class_d tr))) (Lit ''$'')), Upto 2 (Cls (one_of ''-+'')),
           Opt (Alt (Cls (one_of '' 0'')) (Seq (Lit sq) (Cls (class_dot tr)))), Opt (Lit ''-''),
           Star (Cls (class_d tr)), Opt (Seqs [Lit ''.'', Opt (Cls (class_dot tr)), Plus (Cls (class_d tr))]),
           Cls (one_of ''%bcdeEfFgGosuxX'')]"

definition GR_C_FORMAT :: "regex_traits \<Rightarrow> rx" where
  "GR_C_FORMAT tr =
     Seqs [Lit ''%'', Opt (Seq (Plus (Cls (class_d tr))) (Lit ''$'')), Upto 5 (Cls (one_of ''-+ #0'')),
           Opt (Alt (Plus (Cls (class_d tr))) (Lit ''*'')),
           Opt (Seq (Lit ''.'') (Alt (Plus (Cls (class_d tr))) (Lit ''*''))),
           Opt (Alts [Lit ''hh'', Lit ''ll'', Cls (one_of ''hljztL'')]),
           Cls (one_of ''%csdioxXufFeEaAgGnp'')]"

definition GR_PYTHON_FORMAT :: "regex_traits \<Rightarrow> rx" where
  "GR_PYTHON_FORMAT tr =
     Alt (Seqs [Lit ''%'', Opt (Seqs [Lit ''('', Plus (Cls (class_w tr)), Lit '')'']),
                Opt (Cls (one_of ''-+ #0'')),
                Opt (Alt (Plus (Cls (class_d tr))) (Lit ''*'')),
                Opt (Seq (Lit ''.'') (Alt (Plus (Cls (class_d tr))) (Lit ''*''))),
                Opt (Cls (one_of ''hlL'')),
                Cls (one_of ''diouxXeEfFgGcrs%'')])
         (Seqs [Lit ''{'', Star (Cls (\<lambda>x. \<not> one_of ''{}'' x)), Lit ''}''])"

definition GR_RUBY_FORMAT :: "regex_traits \<Rightarrow> rx" where
  "GR_RUBY_FORMAT tr =
     Seqs [Lit ''%'', Opt (Seq (Plus (Cls (class_d tr))) (Lit ''$'')), Upto 5 (Cls (one_of ''-+ #0'')),
           Opt (Alt (Plus (Cls (class_d tr))) (Lit ''*'')),
           Opt (Seq (Lit ''.'') (Alt (Plus (Cls (class_d tr))) (Lit ''*''))),
           Opt (Alts [Lit ''hh'', Lit ''ll'', Cls (one_of ''hljztL'')]),
           Cls (one_of ''%csdioxXufFeEaAgGnp'')]"

definition GR_COMMON_PLACEHOLDERS :: "regex_traits \<Rightarrow> rx" where
  "GR_COMMON_PLACEHOLDERS tr =
     Alts [Seqs [Lit ''%'', Plus (Cls (\<lambda>x. class_w tr x \<or> one_of ''.-'' x)), Lit ''%''],
           Seqs [Opt (Lit ''%''), Lit ''{'', Plus (Cls (\<lambda>x. class_w tr x \<or> one_of ''.-'' x)), Lit ''}''],
           Seqs [Lit ''{{'', Plus (Cls (\<lambda>x. class_w tr x \<or> one_of ''.-'' x)), Lit ''}}''],
           Seqs [Cls (one_of ''@%''), Plus (Cls (\<lambda>x. class_w tr x \<or> one_of ''-'' x))],
           Seqs [Lit dq, Lit '':'', Plus (Cls (\<lambda>x. class_w tr x \<or> one_of ''-'' x)), Lit dq],
           Seqs [Lit sq, Lit '':'', Plus (Cls (\<lambda>x. class_w tr x \<or> one_of ''-'' x)), Lit sq]]"

definition pattern_library :: "wregex list" where
  "pattern_library =
     [RE_HTML_MARKUP, RE_PHP_FORMAT, RE_C_FORMAT, RE_PYTHON_FORMAT, RE_RUBY_FORMAT,
      RE_COMMON_PLACEHOLDERS]"

definition grammar_table :: "regex_traits \<Rightarrow> (wregex \<times> rx) list" where
  "grammar_table tr =
     [(RE_HTML_MARKUP, GR_HTML_MARKUP tr), (RE_PHP_FORMAT, GR_PHP_FORMAT tr),
      (RE_C_FORMAT, GR_C_FORMAT tr), (RE_PYTHON_FORMAT, GR_PYTHON_FORMAT tr),
      (RE_RUBY_FORMAT, GR_RUBY_FORMAT tr),
      (RE_COMMON_PLACEHOLDERS, GR_COMMON_PLACEHOLDERS tr)]"

text \<open>
  What the standard promises of a match that a \<^verbatim>\<open>wsregex_iterator\<close> over \<open>s\<close> yields
  for a pattern with language \<open>g\<close>: the \<^verbatim>\<open>match_results\<close> holds a match, the match lies
  inside \<open>s\<close>, and the matched substring is a word of \<open>g\<close>.
\<close>

definition match_ok :: "rx \<Rightarrow> wstring \<Rightarrow> match_results \<Rightarrow> bool" where
  "match_ok g s m =
     (0 < m_size m \<and> 0 \<le> m_position m \<and> 0 \<le> m_length m
      \<and> m_position m + m_length m \<le> int (length s)
      \<and> take (nat (m_length m)) (drop (nat (m_position m)) s) \<in> lang g)"

fun iterator_ok :: "rx \<Rightarrow> wstring \<Rightarrow> regex_iterator \<Rightarrow> bool" where
  "iterator_ok g s End = True"
| "iterator_ok g s (Throws e) = True"
| "iterator_ok g s (Next m next) = (match_ok g s m \<and> iterator_ok g s next)"

definition engine_ok :: "regex_traits \<Rightarrow> regex_iterate \<Rightarrow> wstring \<Rightarrow> bool" where
  "engine_ok tr iterate s =
     list_all (\<lambda>(re, g). iterator_ok g s (iterate re s)) (grammar_table tr)"

text \<open>
  The highlighters that the file can construct: the basic one, a regex highlighter
  for one of the six patterns, and composites of these.
\<close>

fun library_highlighter :: "SyntaxHighlighter \<Rightarrow> bool" where
  "library_highlighter BasicSyntaxHighlighter = True"
| "library_highlighter (RegexSyntaxHighlighter re k) = (re \<in> set pattern_library)"
| "library_highlighter (CompositeSyntaxHighlighter hs) = list_all library_highlighter hs"

text \<open>
  An engine for the examples: it reports the match \<open>%d\<close> of the C format pattern in
  the string \<open>"a %d  "\<close> and nothing else. The pattern has five groups, so the
  \<^verbatim>\<open>match_results\<close> has six entries.
\<close>

definition demo_iterate :: regex_iterate where
  "demo_iterate re s =
     (if re = RE_C_FORMAT \<and> s = wstr ''a %d  ''
      then Next \<lparr>m_size = 6, m_position = 2, m_length = 2\<rparr> End
      else End)"

section \<open>Properties of the structural highlighter\<close>

lemma blank_step_cases:
  "blank_step blank pos bbp c = (out, bbp') \<Longrightarrow>
     (c = 0xA0 \<and> out = [(pos, pos + 1, LeadingWhitespace)] \<and> bbp' = bbp)
   \<or> (c \<noteq> 0xA0 \<and> blank c \<and> out = [] \<and> bbp' = (if bbp = - 1 then pos else bbp))
   \<or> (c \<noteq> 0xA0 \<and> \<not> blank c \<and> bbp' = - 1
        \<and> out = (if bbp \<noteq> - 1 \<and> pos - bbp \<ge> 2 then [(bbp, pos, LeadingWhitespace)] else []))"
  by (auto simp: blank_step_def split: if_splits)

lemma starts_from_Nil: "starts_from lo []"
  by (simp add: starts_from_def)

lemma starts_from_Cons:
  "lo \<le> a \<Longrightarrow> starts_from (a + 1) out \<Longrightarrow> starts_from lo ((a, b, k) # out)"
  by (fastforce simp: starts_from_def span_start_def)

lemma starts_from_mono: "starts_from lo' out \<Longrightarrow> lo \<le> lo' \<Longrightarrow> starts_from lo out"
  by (fastforce simp: starts_from_def)

lemma forward_sorted_aux:
  "\<not> blank 0x5C \<Longrightarrow> 0xA0 \<notin> set s \<Longrightarrow> 0 \<le> pos \<Longrightarrow> bbp = - 1 \<or> (0 \<le> bbp \<and> bbp < pos) \<Longrightarrow>
   starts_from (if bbp = - 1 then pos else bbp) (forward_loop blank pos bbp s)"
proof (induction blank pos bbp s rule: forward_loop.induct)
  case (1 blank pos bbp)
  then show ?case by (simp add: starts_from_Nil)
next
  case (2 blank pos bbp c cs)
  obtain out bbp' where st: "blank_step blank pos bbp c = (out, bbp')"
    by (cases "blank_step blank pos bbp c")
  from 2(3,4) have cne: "c \<noteq> 0xA0" and csne: "0xA0 \<notin> set cs" by auto
  have IH1: "starts_from (if b = - 1 then pos + 2 else b) (forward_loop blank (pos + 2) b ds)"
    if "c = 0x5C" "cs = d # ds" "b = bbp'" "b = - 1 \<or> (0 \<le> b \<and> b < pos + 2)" for d ds b
    using "2.IH"(1) [of out bbp' d ds] st that csne 2(3,5) by auto
  have IH2: "starts_from (if b = - 1 then pos + 1 else b) (forward_loop blank (pos + 1) b cs)"
    if "c \<noteq> 0x5C" "b = bbp'" "b = - 1 \<or> (0 \<le> b \<and> b < pos + 1)" for b
    using "2.IH"(2) [of out bbp'] st that csne 2(3,5) by auto
  from blank_step_cases [OF st] cne
  consider (blank) "blank c" "out = []" "bbp' = (if bbp = - 1 then pos else bbp)"
    | (nonblank) "\<not> blank c" "bbp' = - 1"
        "out = (if bbp \<noteq> - 1 \<and> pos - bbp \<ge> 2 then [(bbp, pos, LeadingWhitespace)] else [])"
    by blast
  then show ?case
  proof cases
    case blank
    then have nb: "c \<noteq> 0x5C" using 2(3) by auto
    have "starts_from (if bbp' = - 1 then pos + 1 else bbp') (forward_loop blank (pos + 1) bbp' cs)"
      using IH2 [OF nb refl] blank 2(5,6) by auto
    then show ?thesis using blank st nb 2(5,6) by (auto split: if_splits)
  next
    case nonblank
    have tail: "starts_from pos (forward_loop blank pos (- 1) (c # cs))"
    proof (cases "c = 0x5C")
      case False
      have "starts_from (pos + 1) (forward_loop blank (pos + 1) (- 1) cs)"
        using IH2 [OF False, of "- 1"] nonblank by simp
      then have "starts_from pos (forward_loop blank (pos + 1) (- 1) cs)"
        by (rule starts_from_mono) simp
      then show ?thesis
        using False nonblank cne by (simp add: blank_step_def)
    next
      case True
      show ?thesis
      proof (cases cs)
        case Nil
        then show ?thesis using True by (simp add: blank_step_def starts_from_Nil)
      next
        case (Cons d ds)
        have "starts_from (pos + 2) (forward_loop blank (pos + 2) (- 1) ds)"
          using IH1 [OF True Cons, of "- 1"] nonblank by simp
        then have "starts_from (pos + 1) (forward_loop blank (pos + 2) (- 1) ds)"
          by (rule starts_from_mono) simp
        then have "starts_from (pos + 1) (forward_loop blank (pos + 2) (- 1) ds)"
          and "starts_from pos (forward_loop blank (pos + 2) (- 1) ds)"
          by (simp_all add: starts_from_mono [of "pos + 1" _ pos])
        then show ?thesis
          using True Cons 2(3) by (simp add: blank_step_def starts_from_Cons)
      qed
    qed
    have same: "forward_loop blank pos bbp (c # cs) = out @ forward_loop blank pos (- 1) (c # cs)"
      using st nonblank cne by (simp add: blank_step_def split: list.splits)
    show ?thesis
    proof (cases "bbp \<noteq> - 1 \<and> pos - bbp \<ge> 2")
      case True
      then have "out = [(bbp, pos, LeadingWhitespace)]" using nonblank by simp
      moreover have "starts_from (bbp + 1) (forward_loop blank pos (- 1) (c # cs))"
        using tail by (rule starts_from_mono) (use True in simp)
      ultimately show ?thesis using same True by (simp add: starts_from_Cons)
    next
      case False
      then have "out = []" using nonblank by auto
      moreover have "starts_from (if bbp = - 1 then pos else bbp) (forward_loop blank pos (- 1) (c # cs))"
        using tail by (rule starts_from_mono) (use 2(6) in auto)
      ultimately show ?thesis using same by simp
    qed
  qed
qed


lemma leading_loop_start: "x \<in> set (leading_loop blank n s) \<Longrightarrow> span_start x = 0"
  by (induction blank n s rule: leading_loop.induct) (auto simp: span_start_def split: if_splits)

lemma leading_loop_length: "length (leading_loop blank n s) \<le> 1"
  by (induction blank n s rule: leading_loop.induct) auto

lemma trailing_loop_start:
  "x \<in> set (trailing_loop blank len n s) \<Longrightarrow> len - n - int (length s) < span_start x"
  by (induction blank len n s rule: trailing_loop.induct)
     (auto simp: span_start_def split: if_splits)

lemma trailing_loop_length: "length (trailing_loop blank len n s) \<le> 1"
  by (induction blank len n s rule: trailing_loop.induct) auto

lemma sorted_wrt_short: "length xs \<le> 1 \<Longrightarrow> sorted_wrt P xs"
  by (cases xs) auto

lemma edges_sorted:
  "sorted_wrt (<) (map span_start
     (leading_loop blank 0 s @ trailing_loop blank (int (length s)) 0 (rev s)))"
proof -
  have "span_start x < span_start y"
    if "x \<in> set (leading_loop blank 0 s)"
       "y \<in> set (trailing_loop blank (int (length s)) 0 (rev s))" for x y
    using leading_loop_start [OF that(1)] trailing_loop_start [OF that(2)] by simp
  moreover have "sorted_wrt (<) (map span_start (leading_loop blank 0 s))"
    by (rule sorted_wrt_short) (use leading_loop_length [of blank 0 s] in simp)
  moreover have "sorted_wrt (<) (map span_start (trailing_loop blank (int (length s)) 0 (rev s)))"
    by (rule sorted_wrt_short)
       (use trailing_loop_length [of blank "int (length s)" 0 "rev s"] in simp)
  ultimately show ?thesis
    by (simp add: sorted_wrt_append)
qed

lemma BasicHighlight_parts:
  "BasicHighlight blank s =
     leading_loop blank 0 s @ trailing_loop blank (int (length s)) 0 (rev s)
       @ forward_loop blank 0 (- 1) s"
  by (simp add: BasicHighlight_def)

subsection \<open>The string with two blanks at each end\<close>

text \<open>
  Claim C1 says that for \<open>"  hello  "\<close> exactly two spans are emitted, \<open>[0,2)\<close> and
  \<open>[7,9)\<close>. The third loop has no knowledge of the first two: it opens a run at
  position 0 and closes it at the letter \<open>h\<close>, so the leading run is emitted a second
  time.
\<close>

theorem hello_two_spans_counterexample:
  "BasicHighlight u_isblank (wstr ''  hello  '')
     \<noteq> [(0, 2, LeadingWhitespace), (7, 9, LeadingWhitespace)]
   \<and> forward_loop u_isblank 0 (- 1) (wstr ''  hello  '') \<noteq> []"
  by (simp add: BasicHighlight_def wstr_def u_isblank_def blank_step_def)

text \<open>
  Claim C1, amended: for \<open>"  hello  "\<close> three callbacks are made, in this order: the
  first loop emits \<open>[0,2)\<close>, the second loop emits \<open>[7,9)\<close>, and the third loop emits
  \<open>[0,2)\<close> once more, all of kind \<open>LeadingWhitespace\<close>. The third loop does not emit
  the trailing run, which no code point closes.
\<close>

theorem hello_spans:
  "leading_loop u_isblank 0 (wstr ''  hello  '') = [(0, 2, LeadingWhitespace)]
   \<and> trailing_loop u_isblank 9 0 (rev (wstr ''  hello  '')) = [(7, 9, LeadingWhitespace)]
   \<and> forward_loop u_isblank 0 (- 1) (wstr ''  hello  '') = [(0, 2, LeadingWhitespace)]
   \<and> BasicHighlight u_isblank (wstr ''  hello  '') =
       [(0, 2, LeadingWhitespace), (7, 9, LeadingWhitespace), (0, 2, LeadingWhitespace)]"
  by (simp add: BasicHighlight_def wstr_def u_isblank_def blank_step_def)

subsection \<open>The order of the spans\<close>

text \<open>
  Claim C2 says that the starts of the emitted spans increase strictly. The three loops
  each start at an end of the string, so the third loop can emit a span at or before one
  that the first two have emitted.
\<close>

theorem starts_not_increasing_counterexample:
  "\<not> sorted_wrt (<) (map span_start (BasicHighlight u_isblank (wstr ''  a'')))"
  by (simp add: BasicHighlight_def wstr_def u_isblank_def blank_step_def span_start_def)

text \<open>
  Inside the third loop a non-breaking space is emitted at once, while the run of
  blanks that holds it is emitted when it closes, with a smaller start.
\<close>

lemma nbsp_breaks_forward_order:
  "forward_loop u_isblank 0 (- 1) ([0x20, 0xA0, 0x20] @ wstr ''x'') =
     [(1, 2, LeadingWhitespace), (0, 3, LeadingWhitespace)]"
  by (simp add: wstr_def u_isblank_def blank_step_def)

text \<open>
  Claim C2, amended: the emitted sequence is the span of the first loop (if any), the
  span of the second loop (if any), and the spans of the third loop. The two spans of the
  edges come with strictly increasing starts and, when the string holds no non-breaking
  space (and the backslash is not blank), so do the spans of the third loop. The third
  loop starts again from the left, so the whole sequence need not increase.
\<close>

theorem forward_pass_starts_increase:
  assumes "\<not> blank 0x5C" and "0xA0 \<notin> set s"
  shows "BasicHighlight blank s =
           leading_loop blank 0 s @ trailing_loop blank (int (length s)) 0 (rev s)
             @ forward_loop blank 0 (- 1) s
         \<and> sorted_wrt (<) (map span_start
             (leading_loop blank 0 s @ trailing_loop blank (int (length s)) 0 (rev s)))
         \<and> sorted_wrt (<) (map span_start (forward_loop blank 0 (- 1) s))"
proof -
  have "starts_from 0 (forward_loop blank 0 (- 1) s)"
    using forward_sorted_aux [of blank s 0 "- 1"] assms by simp
  then show ?thesis
    using edges_sorted [of blank s] by (simp add: BasicHighlight_parts starts_from_def)
qed

theorem forward_pass_starts_increase_witness:
  "BasicHighlight u_isblank (wstr ''  a  b'') =
     [(0, 2, LeadingWhitespace), (0, 2, LeadingWhitespace), (3, 5, LeadingWhitespace)]
   \<and> sorted_wrt (<) (map span_start (forward_loop u_isblank 0 (- 1) (wstr ''  a  b'')))"
proof -
  have h1: "\<not> u_isblank 0x5C" by (simp add: u_isblank_def)
  have h2: "0xA0 \<notin> set (wstr ''  a  b'')" by (simp add: wstr_def)
  have "BasicHighlight u_isblank (wstr ''  a  b'') =
     [(0, 2, LeadingWhitespace), (0, 2, LeadingWhitespace), (3, 5, LeadingWhitespace)]"
    by (simp add: BasicHighlight_def wstr_def u_isblank_def blank_step_def)
  then show ?thesis
    using forward_pass_starts_increase [of u_isblank "wstr ''  a  b''"] h1 h2 by simp
qed

subsection \<open>Escape sequences\<close>

lemma blank_step_kind:
  "x \<in> set (fst (blank_step blank pos bbp c)) \<Longrightarrow> span_kind x = LeadingWhitespace"
  by (auto simp: blank_step_def span_kind_def split: if_splits)

lemma forward_loop_escape_start:
  "x \<in> set (forward_loop blank pos bbp s) \<Longrightarrow> span_kind x = Escape \<Longrightarrow> pos \<le> span_start x"
proof (induction blank pos bbp s arbitrary: x rule: forward_loop.induct)
  case (1 blank pos bbp)
  then show ?case by simp
next
  case (2 blank pos bbp c cs)
  obtain out bbp' where st: "blank_step blank pos bbp c = (out, bbp')"
    by (cases "blank_step blank pos bbp c")
  have head: "y \<in> set out \<Longrightarrow> span_kind y \<noteq> Escape" for y
    using blank_step_kind [of y blank pos bbp c] st by auto
  show ?case
  proof (cases "c = 0x5C")
    case False
    then have "x \<in> set out \<or> x \<in> set (forward_loop blank (pos + 1) bbp' cs)"
      using 2(3) st by auto
    then show ?thesis
      using head 2(4) "2.IH"(2) [of out bbp' x] st False by fastforce
  next
    case True
    show ?thesis
    proof (cases cs)
      case Nil
      then show ?thesis using 2(3,4) st True head by auto
    next
      case (Cons d ds)
      then have "x \<in> set out \<or> x = (pos, pos + 2, Escape)
                 \<or> x \<in> set (forward_loop blank (pos + 2) bbp' ds)"
        using 2(3) st True by (auto split: if_splits)
      then show ?thesis
        using head 2(4) "2.IH"(1) [of out bbp' d ds x] st True Cons
        by (fastforce simp: span_start_def)
    qed
  qed
qed

lemma span_kind_simp: "span_kind (a, b, k) = k"
  by (simp add: span_kind_def)

lemma span_start_simp: "span_start (a, b, k) = a"
  by (simp add: span_start_def)

lemma filter_none: "(\<And>x. x \<in> set xs \<Longrightarrow> \<not> P x) \<Longrightarrow> filter P xs = []"
  by (induction xs) auto

text \<open>
  Claim C3: when the third loop is at a backslash at position \<open>pos\<close> (in any state of
  \<^verbatim>\<open>blank_block_pos\<close>) and a code point \<open>d\<close> follows, the loop emits what the head of its
  body emits for the backslash itself, then the span \<open>[pos, pos+2)\<close> of kind
  \<open>Escape\<close> exactly when \<open>d\<close> is one of \<open>0 a b f n r t v\<close> and the backslash, and goes on behind \<open>d\<close>
  in a state that does not depend on \<open>d\<close>: \<open>d\<close> is not looked at as a blank, as the end
  of a run, as a non-breaking space or as a backslash. No other span of kind \<open>Escape\<close>
  starts at \<open>pos\<close> or \<open>pos + 1\<close>. When the backslash is the last code point, the loop
  ends after the head of the body, and no span of kind \<open>Escape\<close> is emitted.
\<close>

theorem escape_after_backslash:
  "forward_loop blank pos bbp (0x5C # d # ds) =
     fst (blank_step blank pos bbp 0x5C)
       @ (if is_escape_letter d then [(pos, pos + 2, Escape)] else [])
       @ forward_loop blank (pos + 2) (snd (blank_step blank pos bbp 0x5C)) ds
   \<and> filter (\<lambda>x. span_kind x = Escape \<and> span_start x < pos + 2)
        (forward_loop blank pos bbp (0x5C # d # ds)) =
       (if is_escape_letter d then [(pos, pos + 2, Escape)] else [])
   \<and> forward_loop blank pos bbp [0x5C] = fst (blank_step blank pos bbp 0x5C)
   \<and> filter (\<lambda>x. span_kind x = Escape) (forward_loop blank pos bbp [0x5C]) = []"
proof -
  let ?head = "fst (blank_step blank pos bbp 0x5C)"
  let ?rest = "forward_loop blank (pos + 2) (snd (blank_step blank pos bbp 0x5C)) ds"
  let ?P = "\<lambda>x. span_kind x = Escape \<and> span_start x < pos + 2"
  have eq: "forward_loop blank pos bbp (0x5C # d # ds) =
      ?head @ (if is_escape_letter d then [(pos, pos + 2, Escape)] else []) @ ?rest"
    by (simp split: prod.splits)
  have last: "forward_loop blank pos bbp [0x5C] = ?head"
    by (simp split: prod.splits)
  have h: "filter ?P ?head = []"
    by (rule filter_none) (use blank_step_kind in fastforce)
  have h': "filter (\<lambda>x. span_kind x = Escape) ?head = []"
    by (rule filter_none) (use blank_step_kind in fastforce)
  have r: "filter ?P ?rest = []"
    by (rule filter_none) (use forward_loop_escape_start in fastforce)
  have "filter ?P (forward_loop blank pos bbp (0x5C # d # ds)) =
      (if is_escape_letter d then [(pos, pos + 2, Escape)] else [])"
    unfolding eq by (simp add: h r span_kind_simp span_start_simp)
  then show ?thesis using eq last h' by simp
qed

theorem escape_after_backslash_witness:
  "forward_loop u_isblank 1 (- 1) (0x5C # wstr ''nb'') = [(1, 3, Escape)]
   \<and> forward_loop u_isblank 1 (- 1) (0x5C # wstr ''qb'') = []
   \<and> forward_loop u_isblank 1 (- 1) (0x5C # wstr '' b'') = []
   \<and> forward_loop u_isblank 3 1 [0x5C] = [(1, 3, LeadingWhitespace)]"
  using escape_after_backslash [of u_isblank 1 "- 1" "of_char CHR ''n''" "wstr ''b''"]
        escape_after_backslash [of u_isblank 1 "- 1" "of_char CHR ''q''" "wstr ''b''"]
        escape_after_backslash [of u_isblank 1 "- 1" "of_char CHR '' ''" "wstr ''b''"]
        escape_after_backslash [of u_isblank 3 1 0 "[]"]
  by (simp add: wstr_def u_isblank_def blank_step_def is_escape_letter_def)

subsection \<open>Runs of blanks\<close>

lemma run_open:
  "list_all (\<lambda>b. blank b \<and> b \<noteq> 0xA0) bs \<Longrightarrow> \<not> blank 0x5C \<Longrightarrow> b0 \<noteq> - 1 \<Longrightarrow>
   forward_loop blank pos b0 (bs @ rest) = forward_loop blank (pos + int (length bs)) b0 rest"
proof (induction bs arbitrary: pos)
  case Nil
  then show ?case by simp
next
  case (Cons b bs)
  then have b: "blank b" "b \<noteq> 0xA0" "b \<noteq> 0x5C" by auto
  have step: "forward_loop blank pos b0 ((b # bs) @ rest) =
      forward_loop blank (pos + 1) b0 (bs @ rest)"
    using b Cons.prems(3) by (simp add: blank_step_def)
  have ih: "forward_loop blank (pos + 1) b0 (bs @ rest) =
      forward_loop blank (pos + 1 + int (length bs)) b0 rest"
    using Cons.IH [of "pos + 1"] Cons.prems by simp
  have ar: "pos + 1 + int (length bs) = pos + int (length (b # bs))" by simp
  show ?case by (simp only: step ih ar)
qed

lemma run_close:
  assumes "\<not> blank c" "c \<noteq> 0xA0" "b0 \<noteq> - 1"
  shows "forward_loop blank pos b0 (c # rest) =
           (if pos - b0 \<ge> 2 then [(b0, pos, LeadingWhitespace)] else [])
             @ forward_loop blank pos (- 1) (c # rest)"
  using assms by (simp add: blank_step_def split: list.splits)

text \<open>
  Claim C4 says that every maximal run of blanks that a non-blank code point closes is
  emitted once when it has two or more code points. The loop does not see a blank that
  follows a backslash, so a run of two blanks behind a backslash is tracked as a run of
  one, and nothing is emitted.
\<close>

theorem escaped_blank_run_counterexample:
  "u_isblank 0x20 \<and> \<not> u_isblank 0x5C \<and> \<not> u_isblank (of_char CHR ''y'')
   \<and> wstr ''x'' @ [0x5C, 0x20, 0x20] @ wstr ''y'' = [120, 0x5C, 0x20, 0x20, 121]
   \<and> BasicHighlight u_isblank (wstr ''x'' @ [0x5C, 0x20, 0x20] @ wstr ''y'') = []"
  by (simp add: BasicHighlight_def wstr_def u_isblank_def blank_step_def is_escape_letter_def)

text \<open>
  A non-breaking space is blank for ICU, but it neither opens nor closes a run: here the
  blanks at 1 and 2 give the one-character span of the non-breaking space only.
\<close>

lemma nbsp_in_run:
  "BasicHighlight u_isblank (wstr ''x'' @ [0xA0, 0x20] @ wstr ''y'') = [(1, 2, LeadingWhitespace)]"
  by (simp add: BasicHighlight_def wstr_def u_isblank_def blank_step_def is_escape_letter_def)

text \<open>
  Claim C4, amended: when the third loop reaches, with no run open, the first code point
  of a run of blanks none of which is a non-breaking space, and a code point that is
  neither blank nor a non-breaking space follows the run, then the loop emits for the
  run exactly one span of kind \<open>LeadingWhitespace\<close> covering it when the run has two or
  more code points, and nothing when it has one, and goes on at the closing code point
  with no run open. (No run is open at the start of the string and behind every code
  point the loop has examined that is neither blank nor a non-breaking space; a blank
  directly behind a backslash is not examined.) The input \<open>"x   y"\<close> gives exactly the
  span \<open>[1,4)\<close>.
\<close>

theorem closed_blank_run:
  assumes "0 \<le> pos" and "bs \<noteq> []" and "list_all (\<lambda>b. blank b \<and> b \<noteq> 0xA0) bs"
    and "\<not> blank 0x5C" and "\<not> blank c" and "c \<noteq> 0xA0"
  shows "forward_loop blank pos (- 1) (bs @ c # rest) =
           (if length bs \<ge> 2 then [(pos, pos + int (length bs), LeadingWhitespace)] else [])
             @ forward_loop blank (pos + int (length bs)) (- 1) (c # rest)
         \<and> BasicHighlight u_isblank (wstr ''x   y'') = [(1, 4, LeadingWhitespace)]"
proof -
  obtain b bs' where bs: "bs = b # bs'" using assms(2) by (cases bs) auto
  then have b: "blank b" "b \<noteq> 0xA0" "b \<noteq> 0x5C"
    and bs': "list_all (\<lambda>b. blank b \<and> b \<noteq> 0xA0) bs'"
    using assms(3,4) by auto
  have pos: "pos \<noteq> - 1" using assms(1) by simp
  have s1: "forward_loop blank pos (- 1) (bs @ c # rest) =
          forward_loop blank (pos + 1) pos (bs' @ c # rest)"
    using bs b by (simp add: blank_step_def)
  have s2: "forward_loop blank (pos + 1) pos (bs' @ c # rest) =
          forward_loop blank (pos + int (length bs)) pos (c # rest)"
    using run_open [OF bs' assms(4) pos, of "pos + 1" "c # rest"] bs
    by (simp add: add.assoc)
  have s3: "forward_loop blank (pos + int (length bs)) pos (c # rest) =
          (if length bs \<ge> 2
           then [(pos, pos + int (length bs), LeadingWhitespace)] else [])
          @ forward_loop blank (pos + int (length bs)) (- 1) (c # rest)"
    using run_close [of blank c pos "pos + int (length bs)" rest] assms(5,6) pos by simp
  have "forward_loop blank pos (- 1) (bs @ c # rest) =
           (if length bs \<ge> 2 then [(pos, pos + int (length bs), LeadingWhitespace)] else [])
             @ forward_loop blank (pos + int (length bs)) (- 1) (c # rest)"
    by (simp only: s1 s2 s3)
  moreover have "BasicHighlight u_isblank (wstr ''x   y'') = [(1, 4, LeadingWhitespace)]"
    by (simp add: BasicHighlight_def wstr_def u_isblank_def blank_step_def)
  ultimately show ?thesis by simp
qed

theorem closed_blank_run_witness:
  "forward_loop u_isblank 1 (- 1) (wstr ''   y  z w'') =
     [(1, 4, LeadingWhitespace), (5, 7, LeadingWhitespace)]
   \<and> forward_loop u_isblank 1 (- 1) (wstr '' y'') = []"
proof -
  have a: "(0::int) \<le> 1" by simp
  have b3: "wstr ''   '' \<noteq> []" and b1: "wstr '' '' \<noteq> []" by (simp_all add: wstr_def)
  have l3: "list_all (\<lambda>b. u_isblank b \<and> b \<noteq> 0xA0) (wstr ''   '')"
    and l1: "list_all (\<lambda>b. u_isblank b \<and> b \<noteq> 0xA0) (wstr '' '')"
    by (simp_all add: wstr_def u_isblank_def)
  have nb: "\<not> u_isblank 0x5C" by (simp add: u_isblank_def)
  have y: "\<not> u_isblank (of_char CHR ''y'')" "of_char CHR ''y'' \<noteq> (0xA0::nat)"
    by (simp_all add: u_isblank_def)
  show ?thesis
    using closed_blank_run [OF a b3 l3 nb y, of "wstr ''  z w''"]
          closed_blank_run [OF a b1 l1 nb y, of "[]"]
    by (simp add: wstr_def u_isblank_def blank_step_def)
qed

subsection \<open>Further facts about the three loops\<close>

text \<open>
  A string of blanks (without a non-breaking space) gives no span at all: no code point
  ends the first or the second loop's search, and no code point closes the run of the
  third.
\<close>

lemma leading_loop_all_blank: "list_all blank s \<Longrightarrow> leading_loop blank n s = []"
  by (induction blank n s rule: leading_loop.induct) auto

lemma trailing_loop_all_blank: "list_all blank s \<Longrightarrow> trailing_loop blank len n s = []"
  by (induction blank len n s rule: trailing_loop.induct) auto

lemma forward_loop_all_blank:
  "list_all (\<lambda>c. blank c \<and> c \<noteq> 0xA0 \<and> c \<noteq> 0x5C) s \<Longrightarrow> forward_loop blank pos bbp s = []"
  by (induction s arbitrary: pos bbp) (auto simp: blank_step_def)

lemma all_blank_silent:
  assumes "list_all (\<lambda>c. blank c \<and> c \<noteq> 0xA0 \<and> c \<noteq> 0x5C) s"
  shows "BasicHighlight blank s = []"
proof -
  have "list_all blank s" "list_all blank (rev s)"
    using assms by (auto simp: list_all_iff)
  then show ?thesis
    using assms
    by (simp add: BasicHighlight_def leading_loop_all_blank trailing_loop_all_blank
        forward_loop_all_blank)
qed

text \<open>
  The span of the first loop ends before the span of the second loop starts: a code
  point that is not blank lies between them.
\<close>

lemma leading_loop_span:
  "x \<in> set (leading_loop blank n s) \<Longrightarrow>
   \<exists>w. x = (0, n + int w, LeadingWhitespace) \<and> w < length s \<and> \<not> blank (s ! w)
       \<and> (\<forall>i<w. blank (s ! i))"
proof (induction blank n s rule: leading_loop.induct)
  case (1 blank n)
  then show ?case by simp
next
  case (2 blank n c cs)
  show ?case
  proof (cases "blank c")
    case False
    then have "x = (0, n + int 0, LeadingWhitespace) \<and> 0 < length (c # cs)
        \<and> \<not> blank ((c # cs) ! 0) \<and> (\<forall>i<0. blank ((c # cs) ! i))"
      using 2(2) by (auto split: if_splits)
    then show ?thesis by blast
  next
    case True
    then obtain w where w: "x = (0, n + 1 + int w, LeadingWhitespace)" "w < length cs"
      "\<not> blank (cs ! w)" "\<forall>i<w. blank (cs ! i)"
      using 2 by auto
    have "\<forall>i<Suc w. blank ((c # cs) ! i)"
      using True w(4) by (auto simp: nth_Cons split: nat.splits)
    then have "x = (0, n + int (Suc w), LeadingWhitespace) \<and> Suc w < length (c # cs)
        \<and> \<not> blank ((c # cs) ! Suc w) \<and> (\<forall>i<Suc w. blank ((c # cs) ! i))"
      using w by simp
    then show ?thesis by blast
  qed
qed

lemma trailing_loop_span:
  "x \<in> set (trailing_loop blank len n s) \<Longrightarrow>
   \<exists>w. x = (len - (n + int w), len, LeadingWhitespace) \<and> w < length s \<and> \<not> blank (s ! w)
       \<and> (\<forall>i<w. blank (s ! i))"
proof (induction blank len n s rule: trailing_loop.induct)
  case (1 blank len n)
  then show ?case by simp
next
  case (2 blank len n c cs)
  show ?case
  proof (cases "blank c")
    case False
    then have "x = (len - (n + int 0), len, LeadingWhitespace) \<and> 0 < length (c # cs)
        \<and> \<not> blank ((c # cs) ! 0) \<and> (\<forall>i<0. blank ((c # cs) ! i))"
      using 2(2) by (auto split: if_splits)
    then show ?thesis by blast
  next
    case True
    then obtain w where w: "x = (len - (n + 1 + int w), len, LeadingWhitespace)" "w < length cs"
      "\<not> blank (cs ! w)" "\<forall>i<w. blank (cs ! i)"
      using 2 by auto
    have "\<forall>i<Suc w. blank ((c # cs) ! i)"
      using True w(4) by (auto simp: nth_Cons split: nat.splits)
    then have "x = (len - (n + int (Suc w)), len, LeadingWhitespace) \<and> Suc w < length (c # cs)
        \<and> \<not> blank ((c # cs) ! Suc w) \<and> (\<forall>i<Suc w. blank ((c # cs) ! i))"
      using w by simp
    then show ?thesis by blast
  qed
qed

lemma edge_spans_apart:
  assumes "(a, b, k) \<in> set (leading_loop blank 0 s)"
    and "(a', b', k') \<in> set (trailing_loop blank (int (length s)) 0 (rev s))"
  shows "a = 0 \<and> b < a' \<and> b' = int (length s)"
proof -
  from leading_loop_span [OF assms(1)] obtain w where
    w: "b = int w" "a = 0" "w < length s" "\<not> blank (s ! w)" by auto
  from trailing_loop_span [OF assms(2)] obtain v where
    v: "a' = int (length s) - int v" "b' = int (length s)" "v < length s"
       "\<forall>i<v. blank (rev s ! i)" by auto
  have "w + v < length s"
  proof (rule ccontr)
    assume "\<not> w + v < length s"
    then have "length s - Suc w < v" using w(3) by simp
    then have "blank (rev s ! (length s - Suc w))" using v(4) by simp
    then show False using w(3,4) by (simp add: rev_nth)
  qed
  then show ?thesis using w v by simp
qed

text \<open>A non-breaking space between two letters gives its one-character span.\<close>

lemma nbsp_span:
  "BasicHighlight u_isblank (wstr ''a'' @ [0xA0] @ wstr ''b'') = [(1, 2, LeadingWhitespace)]"
  by (simp add: BasicHighlight_def wstr_def u_isblank_def blank_step_def)

section \<open>Properties of the regex highlighter\<close>

text \<open>The pattern for C differs from the others, but for the one for Ruby.\<close>

lemma RE_distinct:
  "RE_HTML_MARKUP \<noteq> RE_C_FORMAT" "RE_PHP_FORMAT \<noteq> RE_C_FORMAT"
  "RE_PYTHON_FORMAT \<noteq> RE_C_FORMAT" "RE_COMMON_PLACEHOLDERS \<noteq> RE_C_FORMAT"
  "RE_RUBY_FORMAT = RE_C_FORMAT"
  by (simp_all add: RE_HTML_MARKUP_def RE_PHP_FORMAT_def RE_C_FORMAT_def RE_PYTHON_FORMAT_def
      RE_RUBY_FORMAT_def RE_COMMON_PLACEHOLDERS_def bsl_def)

lemma regex_loop_throws:
  "regex_loop (foldr Next ms (Throws e)) k = (reported k (butlast ms), Some e)"
proof (induction ms)
  case Nil
  then show ?case by (simp add: reported_def)
next
  case (Cons m ms)
  show ?case
  proof (cases ms)
    case Nil
    then show ?thesis by (simp add: reported_def)
  next
    case (Cons m' ms')
    then show ?thesis using Cons.IH by (simp add: reported_def)
  qed
qed

lemma regex_loop_end:
  "regex_loop (foldr Next ms End) k = (reported k ms, None)"
proof (induction ms)
  case Nil
  then show ?case by (simp add: reported_def)
next
  case (Cons m ms)
  then show ?case by (cases ms) (simp_all add: reported_def)
qed

text \<open>
  Claim C5 says that after a failure for exhaustion of resources every match found
  before the failure has been emitted. The loop increments the iterator before it
  reports the current match, so the match whose successor could not be searched for is
  lost: here the iterator holds a match at \<open>[0,3)\<close> and its increment throws
  \<^verbatim>\<open>error_complexity\<close>.
\<close>

theorem last_match_lost_counterexample:
  "\<not> m_empty \<lparr>m_size = 1, m_position = 0, m_length = 3\<rparr>
   \<and> RegexHighlight (Next \<lparr>m_size = 1, m_position = 0, m_length = 3\<rparr> (Throws error_complexity))
        Markup = ([], None)"
  by (simp add: RegexHighlight_def m_empty_def)

text \<open>
  Claim C5, amended: when a search of the iterator (the constructor's or an
  increment's) throws a \<^verbatim>\<open>regex_error\<close> after the matches \<open>ms\<close> were found, the spans
  of all of \<open>ms\<close> but the last have been emitted and nothing more is. For the codes
  \<^verbatim>\<open>error_complexity\<close> and \<^verbatim>\<open>error_stack\<close> \<^verbatim>\<open>Highlight\<close> returns normally; every
  other code is propagated to the caller. When no search throws, every match is emitted.
\<close>

theorem regex_error_handling:
  "RegexHighlight (foldr Next ms (Throws e)) k =
     (reported k (butlast ms),
      if e = error_complexity \<or> e = error_stack then None else Some e)
   \<and> RegexHighlight (foldr Next ms End) k = (reported k ms, None)"
  by (simp add: RegexHighlight_def regex_loop_throws regex_loop_end)

theorem regex_error_handling_witness:
  "RegexHighlight
     (Next \<lparr>m_size = 1, m_position = 0, m_length = 3\<rparr>
       (Next \<lparr>m_size = 1, m_position = 5, m_length = 2\<rparr> (Throws error_stack))) Markup =
     ([(0, 3, Markup)], None)
   \<and> RegexHighlight
     (Next \<lparr>m_size = 1, m_position = 0, m_length = 3\<rparr>
       (Next \<lparr>m_size = 1, m_position = 5, m_length = 2\<rparr> (Throws error_space))) Markup =
     ([(0, 3, Markup)], Some error_space)"
  using regex_error_handling [of "[\<lparr>m_size = 1, m_position = 0, m_length = 3\<rparr>,
            \<lparr>m_size = 1, m_position = 5, m_length = 2\<rparr>]" error_stack Markup]
        regex_error_handling [of "[\<lparr>m_size = 1, m_position = 0, m_length = 3\<rparr>,
            \<lparr>m_size = 1, m_position = 5, m_length = 2\<rparr>]" error_space Markup]
  by (simp add: reported_def report_match_def m_empty_def)

section \<open>Properties of the selector\<close>

text \<open>
  Claim C6: for an item with an empty format flag for which neither sniffing finds
  anything under the requested mask, \<^verbatim>\<open>ForItem\<close> returns the basic highlighter when
  the mask holds \<open>LeadingWhitespace\<close> or \<open>Escape\<close>, and the null pointer otherwise, in
  particular for the mask that holds \<open>Placeholder\<close> only. (The one shared instance of
  the source is the one value \<open>BasicSyntaxHighlighter\<close> of the model.)
\<close>

theorem ForItem_plain:
  assumes "GetFormatFlag item = []"
    and "needsHTML search item kindsMask = Inr False"
    and "needsGenericPlaceholders search item kindsMask = Inr False"
  shows "ForItem search item kindsMask =
           Inr (if LeadingWhitespace \<in> kindsMask \<or> Escape \<in> kindsMask
                then Some BasicSyntaxHighlighter else None)
         \<and> (kindsMask = {Placeholder} \<longrightarrow> ForItem search item kindsMask = Inr None)"
  using assms by (auto simp: ForItem_def wants_basic_def basic_def)

theorem ForItem_plain_witness:
  "ForItem (\<lambda>re s. Inr False)
     \<lparr>GetFormatFlag = [], GetString = wstr ''hello'', HasPlural = False, GetPluralString = []\<rparr>
     {Placeholder} = Inr None
   \<and> ForItem (\<lambda>re s. Inr False)
     \<lparr>GetFormatFlag = [], GetString = wstr ''hello'', HasPlural = True,
      GetPluralString = wstr ''hellos''\<rparr>
     {Placeholder, Escape} = Inr (Some BasicSyntaxHighlighter)"
proof -
  let ?i1 = "\<lparr>GetFormatFlag = [], GetString = wstr ''hello'', HasPlural = False,
              GetPluralString = []\<rparr>"
  let ?i2 = "\<lparr>GetFormatFlag = [], GetString = wstr ''hello'', HasPlural = True,
              GetPluralString = wstr ''hellos''\<rparr>"
  let ?search = "(\<lambda>re s. Inr False) :: regex_search"
  have a: "GetFormatFlag ?i1 = []" "GetFormatFlag ?i2 = []" by simp_all
  have b: "needsHTML ?search ?i1 {Placeholder} = Inr False"
    "needsHTML ?search ?i2 {Placeholder, Escape} = Inr False"
    by (simp_all add: needsHTML_def sniff_def)
  have c: "needsGenericPlaceholders ?search ?i1 {Placeholder} = Inr False"
    "needsGenericPlaceholders ?search ?i2 {Placeholder, Escape} = Inr False"
    by (simp_all add: needsGenericPlaceholders_def sniff_def)
  show ?thesis
    using ForItem_plain [OF a(1) b(1) c(1)] ForItem_plain [OF a(2) b(2) c(2)] by simp
qed

lemma Highlight_subs_all:
  "list_all (\<lambda>h. snd (Highlight blank iterate h s) = None) hs \<Longrightarrow>
   Highlight_subs blank iterate hs s =
     (concat (map (\<lambda>h. fst (Highlight blank iterate h s)) hs), None)"
proof (induction hs)
  case Nil
  then show ?case by simp
next
  case (Cons h hs)
  then show ?case by (cases "Highlight blank iterate h s") simp
qed

lemma Highlight_subs_prefix:
  "\<exists>n\<le>length hs. fst (Highlight_subs blank iterate hs s) =
      concat (map (\<lambda>h. fst (Highlight blank iterate h s)) (take n hs))"
proof (induction hs)
  case Nil
  then show ?case by simp
next
  case (Cons h hs)
  obtain out r where h: "Highlight blank iterate h s = (out, r)"
    by (cases "Highlight blank iterate h s")
  show ?case
  proof (cases r)
    case None
    from Cons.IH obtain n where n: "n \<le> length hs"
      "fst (Highlight_subs blank iterate hs s) =
         concat (map (\<lambda>h. fst (Highlight blank iterate h s)) (take n hs))"
      by blast
    have "fst (Highlight_subs blank iterate (h # hs) s) =
        concat (map (\<lambda>h. fst (Highlight blank iterate h s)) (take (Suc n) (h # hs)))"
      using h None n(2) by (cases "Highlight_subs blank iterate hs s") simp
    then show ?thesis using n(1) by (intro exI [of _ "Suc n"]) simp
  next
    case (Some e)
    have "fst (Highlight_subs blank iterate (h # hs) s) =
        concat (map (\<lambda>h. fst (Highlight blank iterate h s)) (take (Suc 0) (h # hs)))"
      using h Some by simp
    then show ?thesis by (intro exI [of _ "Suc 0"]) simp
  qed
qed

text \<open>
  Claim C7: when \<^verbatim>\<open>ForItem\<close> returns a composite, its list of sub-highlighters is, in
  this order, the markup highlighter (if the sniffing asked for it), the highlighter of
  generic placeholders (if the sniffing asked for it), the one highlighter of the format
  flag \<open>php\<close>, \<open>c\<close>, \<open>python\<close> or \<open>ruby\<close> (if the mask holds \<open>Placeholder\<close>; any other
  flag adds nothing), and the basic highlighter (if the mask holds
  \<open>LeadingWhitespace\<close> or \<open>Escape\<close>). \<^verbatim>\<open>Highlight\<close> of the composite runs them in this
  order on the same string: the emitted spans are the blocks of the sub-highlighters
  one after the other. The run ends early only when a sub-highlighter propagates a
  \<^verbatim>\<open>regex_error\<close>; then the blocks of a prefix of the list, up to the one that
  failed, have been emitted.
\<close>

theorem composite_order:
  assumes "ForItem search item kindsMask = Inr (Some (CompositeSyntaxHighlighter subs))"
  shows "\<exists>needs_html needs_generic.
           needsHTML search item kindsMask = Inr needs_html
         \<and> needsGenericPlaceholders search item kindsMask = Inr needs_generic
         \<and> subs = (if needs_html then [html] else [])
                 @ (if needs_generic then [placeholders] else [])
                 @ (if Placeholder \<in> kindsMask then
                      (if GetFormatFlag item = ''php'' then [php_format]
                       else if GetFormatFlag item = ''c'' then [c_format]
                       else if GetFormatFlag item = ''python'' then [python_format]
                       else if GetFormatFlag item = ''ruby'' then [ruby_format]
                       else [])
                    else [])
                 @ (if LeadingWhitespace \<in> kindsMask \<or> Escape \<in> kindsMask
                    then [BasicSyntaxHighlighter] else [])
         \<and> (list_all (\<lambda>h. snd (Highlight blank iterate h s) = None) subs \<longrightarrow>
              Highlight blank iterate (CompositeSyntaxHighlighter subs) s =
                (concat (map (\<lambda>h. fst (Highlight blank iterate h s)) subs), None))
         \<and> (\<exists>n\<le>length subs.
              fst (Highlight blank iterate (CompositeSyntaxHighlighter subs) s) =
                concat (map (\<lambda>h. fst (Highlight blank iterate h s)) (take n subs)))"
proof -
  obtain nh where nh: "needsHTML search item kindsMask = Inr nh"
    using assms by (cases "needsHTML search item kindsMask") (simp_all add: ForItem_def)
  obtain ng where ng: "needsGenericPlaceholders search item kindsMask = Inr ng"
    using assms nh
    by (cases "needsGenericPlaceholders search item kindsMask") (simp_all add: ForItem_def)
  have subs: "subs = (if nh then [html] else [])
                 @ (if ng then [placeholders] else [])
                 @ (if Placeholder \<in> kindsMask then
                      (if GetFormatFlag item = ''php'' then [php_format]
                       else if GetFormatFlag item = ''c'' then [c_format]
                       else if GetFormatFlag item = ''python'' then [python_format]
                       else if GetFormatFlag item = ''ruby'' then [ruby_format]
                       else [])
                    else [])
                 @ (if LeadingWhitespace \<in> kindsMask \<or> Escape \<in> kindsMask
                    then [BasicSyntaxHighlighter] else [])"
    using assms nh ng
    by (auto simp: ForItem_def Let_def basic_def wants_basic_def Add_def add_format_def
             split: if_splits)
  have all: "list_all (\<lambda>h. snd (Highlight blank iterate h s) = None) subs \<longrightarrow>
      Highlight blank iterate (CompositeSyntaxHighlighter subs) s =
        (concat (map (\<lambda>h. fst (Highlight blank iterate h s)) subs), None)"
    using Highlight_subs_all [of blank iterate s subs] by simp
  have pre: "\<exists>n\<le>length subs.
      fst (Highlight blank iterate (CompositeSyntaxHighlighter subs) s) =
        concat (map (\<lambda>h. fst (Highlight blank iterate h s)) (take n subs))"
    using Highlight_subs_prefix [of subs blank iterate s] by simp
  show ?thesis using nh ng subs all pre by blast
qed

theorem composite_order_witness:
  "ForItem (\<lambda>re s. Inr True)
     \<lparr>GetFormatFlag = ''c'', GetString = wstr ''a %d  '', HasPlural = False,
      GetPluralString = []\<rparr> {LeadingWhitespace, Escape, Markup, Placeholder}
     = Inr (Some (CompositeSyntaxHighlighter [html, placeholders, c_format, BasicSyntaxHighlighter]))
   \<and> Highlight u_isblank demo_iterate
       (CompositeSyntaxHighlighter [html, placeholders, c_format, BasicSyntaxHighlighter])
       (wstr ''a %d  '')
     = ([(2, 4, Placeholder), (4, 6, LeadingWhitespace)], None)"
proof -
  let ?item = "\<lparr>GetFormatFlag = ''c'', GetString = wstr ''a %d  '', HasPlural = False,
                GetPluralString = []\<rparr>"
  let ?mask = "{LeadingWhitespace, Escape, Markup, Placeholder}"
  let ?subs = "[html, placeholders, c_format, BasicSyntaxHighlighter]"
  let ?s = "wstr ''a %d  ''"
  have sel: "ForItem (\<lambda>re s. Inr True) ?item ?mask = Inr (Some (CompositeSyntaxHighlighter ?subs))"
    by (simp add: ForItem_def needsHTML_def needsGenericPlaceholders_def sniff_def
        wants_basic_def Add_def add_format_def basic_def)
  have h: "Highlight u_isblank demo_iterate html ?s = ([], None)"
    "Highlight u_isblank demo_iterate placeholders ?s = ([], None)"
    by (simp_all add: html_def placeholders_def demo_iterate_def RE_distinct RegexHighlight_def)
  have c: "Highlight u_isblank demo_iterate c_format ?s = ([(2, 4, Placeholder)], None)"
    by (simp add: c_format_def demo_iterate_def RegexHighlight_def report_match_def m_empty_def)
  have b: "Highlight u_isblank demo_iterate BasicSyntaxHighlighter ?s
             = ([(4, 6, LeadingWhitespace)], None)"
    by (simp add: BasicHighlight_def wstr_def u_isblank_def blank_step_def)
  have ok: "list_all (\<lambda>h. snd (Highlight u_isblank demo_iterate h ?s) = None) ?subs"
    using h c b by simp
  from composite_order [OF sel, of u_isblank demo_iterate ?s] ok
  have "Highlight u_isblank demo_iterate (CompositeSyntaxHighlighter ?subs) ?s =
          (concat (map (\<lambda>h. fst (Highlight u_isblank demo_iterate h ?s)) ?subs), None)"
    by blast
  then show ?thesis using sel h c b by simp
qed

text \<open>
  Claim C10: for an item whose format flag is not empty and is none of \<open>c\<close>, \<open>php\<close>,
  \<open>python\<close>, \<open>ruby\<close>, for which neither sniffing finds anything, and a mask without
  \<open>LeadingWhitespace\<close> and \<open>Escape\<close>, \<^verbatim>\<open>ForItem\<close> returns a composite with no
  sub-highlighter (not the null pointer), and \<^verbatim>\<open>Highlight\<close> of it emits nothing on any
  string.
\<close>

theorem ForItem_inert:
  assumes "GetFormatFlag item \<notin> {[], ''c'', ''php'', ''python'', ''ruby''}"
    and "needsHTML search item kindsMask = Inr False"
    and "needsGenericPlaceholders search item kindsMask = Inr False"
    and "LeadingWhitespace \<notin> kindsMask" and "Escape \<notin> kindsMask"
  shows "ForItem search item kindsMask = Inr (Some (CompositeSyntaxHighlighter []))
         \<and> Highlight blank iterate (CompositeSyntaxHighlighter []) s = ([], None)"
  using assms by (simp add: ForItem_def Let_def wants_basic_def add_format_def)

theorem ForItem_inert_witness:
  "ForItem (\<lambda>re s. Inr False)
     \<lparr>GetFormatFlag = ''java'', GetString = wstr ''hello'', HasPlural = False,
      GetPluralString = []\<rparr> {Placeholder} = Inr (Some (CompositeSyntaxHighlighter []))
   \<and> Highlight u_isblank demo_iterate (CompositeSyntaxHighlighter []) (wstr ''  hello  '')
       = ([], None)"
proof -
  let ?i = "\<lparr>GetFormatFlag = ''java'', GetString = wstr ''hello'', HasPlural = False,
             GetPluralString = []\<rparr>"
  let ?search = "(\<lambda>re s. Inr False) :: regex_search"
  have a: "GetFormatFlag ?i \<notin> {[], ''c'', ''php'', ''python'', ''ruby''}" by simp
  have b: "needsHTML ?search ?i {Placeholder} = Inr False"
    by (simp add: needsHTML_def)
  have c: "needsGenericPlaceholders ?search ?i {Placeholder} = Inr False"
    by (simp add: needsGenericPlaceholders_def sniff_def)
  have d: "LeadingWhitespace \<notin> {Placeholder}" "Escape \<notin> {Placeholder}" by simp_all
  show ?thesis
    using ForItem_inert [OF a b c d, of u_isblank demo_iterate "wstr ''  hello  ''"] by simp
qed

section \<open>The Ruby pattern\<close>

text \<open>
  Claim C8: the pattern for Ruby is the pattern for C (the same pattern text, the same
  flags), so for every engine and every string the two highlighters emit the same
  spans and end in the same way.
\<close>

theorem ruby_is_c:
  "RE_RUBY_FORMAT = RE_C_FORMAT
   \<and> Highlight blank iterate ruby_format s = Highlight blank iterate c_format s"
  by (simp add: RE_RUBY_FORMAT_def RE_C_FORMAT_def ruby_format_def c_format_def)

section \<open>Every span lies inside the string\<close>

subsection \<open>The derivatives decide the language\<close>

lemma nullable_lang: "nullable r \<longleftrightarrow> [] \<in> lang r"
  by (induction r) (auto intro: star_empty)

lemma star_Cons:
  "c # w \<in> star A \<longleftrightarrow> (\<exists>u v. w = u @ v \<and> c # u \<in> A \<and> v \<in> star A)"
proof
  assume "c # w \<in> star A"
  then show "\<exists>u v. w = u @ v \<and> c # u \<in> A \<and> v \<in> star A"
  proof (induction "c # w" rule: star.induct)
    case (star_step u v)
    show ?case
    proof (cases u)
      case Nil
      then show ?thesis using star_step by simp
    next
      case (Cons d u')
      then have "w = u' @ v" "c # u' \<in> A" using star_step(1,4) by auto
      then show ?thesis using star_step(2) by blast
    qed
  qed
next
  assume "\<exists>u v. w = u @ v \<and> c # u \<in> A \<and> v \<in> star A"
  then obtain u v where "w = u @ v" "c # u \<in> A" "v \<in> star A" by blast
  then show "c # w \<in> star A" using star_step [of "c # u" A v] by simp
qed

lemma lang_SeqI: "u \<in> lang a \<Longrightarrow> v \<in> lang b \<Longrightarrow> u @ v \<in> lang (Seq a b)"
  by auto

lemma deriv_lang: "w \<in> lang (deriv c r) \<longleftrightarrow> c # w \<in> lang r"
proof (induction r arbitrary: w)
  case (Seq a b)
  show ?case
  proof
    assume "w \<in> lang (deriv c (Seq a b))"
    then consider u v where "w = u @ v" "u \<in> lang (deriv c a)" "v \<in> lang b"
      | "nullable a" "w \<in> lang (deriv c b)"
      by (auto split: if_splits)
    then show "c # w \<in> lang (Seq a b)"
    proof cases
      case 1
      then have "c # u \<in> lang a" using Seq.IH(1) by simp
      then have "(c # u) @ v \<in> lang (Seq a b)" using 1(3) by (rule lang_SeqI)
      then show ?thesis using 1(1) by simp
    next
      case 2
      then have "[] \<in> lang a" "c # w \<in> lang b" using Seq.IH(2) nullable_lang by auto
      then have "[] @ (c # w) \<in> lang (Seq a b)" by (rule lang_SeqI)
      then show ?thesis by simp
    qed
  next
    assume "c # w \<in> lang (Seq a b)"
    then obtain u v where uv: "c # w = u @ v" "u \<in> lang a" "v \<in> lang b" by auto
    show "w \<in> lang (deriv c (Seq a b))"
    proof (cases u)
      case Nil
      then have "nullable a" "w \<in> lang (deriv c b)"
        using uv Seq.IH(2) nullable_lang by auto
      then show ?thesis by simp
    next
      case (Cons d u')
      then have "w = u' @ v" "u' \<in> lang (deriv c a)" using uv Seq.IH(1) by auto
      then have "w \<in> lang (Seq (deriv c a) b)" using uv(3) lang_SeqI by blast
      then show ?thesis by simp
    qed
  qed
next
  case (Star a)
  show ?case
    using Star.IH by (auto simp: star_Cons)
qed auto

lemma rx_matches_lang: "rx_matches r w \<longleftrightarrow> w \<in> lang r"
  by (induction w arbitrary: r) (simp_all add: nullable_lang deriv_lang)

subsection \<open>The basic highlighter\<close>

lemma leading_loop_within:
  "0 \<le> n \<Longrightarrow> n + int (length s) \<le> L \<Longrightarrow> list_all (within L) (leading_loop blank n s)"
  by (induction blank n s rule: leading_loop.induct) (auto simp: within_def)

lemma trailing_loop_within:
  "0 \<le> n \<Longrightarrow> n + int (length s) \<le> L \<Longrightarrow> list_all (within L) (trailing_loop blank L n s)"
  by (induction blank L n s rule: trailing_loop.induct) (auto simp: within_def)

lemma blank_step_within:
  assumes "blank_step blank pos bbp c = (out, bbp')"
    and "0 \<le> pos" "pos < L" "bbp = - 1 \<or> (0 \<le> bbp \<and> bbp < pos)"
  shows "list_all (within L) out \<and> (bbp' = - 1 \<or> (0 \<le> bbp' \<and> bbp' < pos + 1))"
  using blank_step_cases [OF assms(1)] assms(2-4) by (auto simp: within_def)

lemma forward_loop_within:
  "0 \<le> pos \<Longrightarrow> pos + int (length s) \<le> L \<Longrightarrow> bbp = - 1 \<or> (0 \<le> bbp \<and> bbp < pos) \<Longrightarrow>
   list_all (within L) (forward_loop blank pos bbp s)"
proof (induction blank pos bbp s rule: forward_loop.induct)
  case (1 blank pos bbp)
  then show ?case by simp
next
  case (2 blank pos bbp c cs)
  obtain out bbp' where st: "blank_step blank pos bbp c = (out, bbp')"
    by (cases "blank_step blank pos bbp c")
  have posL: "pos < L" using 2(4) by simp
  from blank_step_within [OF st 2(3) posL 2(5)]
  have out: "list_all (within L) out" and inv: "bbp' = - 1 \<or> (0 \<le> bbp' \<and> bbp' < pos + 1)"
    by auto
  show ?case
  proof (cases "c = 0x5C")
    case False
    have "list_all (within L) (forward_loop blank (pos + 1) bbp' cs)"
      using "2.IH"(2) [of out bbp'] st False 2(3,4) inv by auto
    then show ?thesis using st False out by simp
  next
    case True
    show ?thesis
    proof (cases cs)
      case Nil
      then show ?thesis using st True out by simp
    next
      case (Cons d ds)
      have inv2: "bbp' = - 1 \<or> (0 \<le> bbp' \<and> bbp' < pos + 2)" using inv by auto
      have "list_all (within L) (forward_loop blank (pos + 2) bbp' ds)"
        using "2.IH"(1) [of out bbp' d ds] st True Cons 2(3,4) inv2 by auto
      moreover have "within L (pos, pos + 2, Escape)"
        using 2(3,4) Cons by (simp add: within_def)
      ultimately show ?thesis using st True Cons out by simp
    qed
  qed
qed

lemma valid_span_within: "valid_span s = within (int (length s))"
  by (auto simp: valid_span_def within_def fun_eq_iff)

lemma BasicHighlight_valid: "list_all (valid_span s) (BasicHighlight blank s)"
  unfolding valid_span_within BasicHighlight_def
  using leading_loop_within [of 0 s "int (length s)" blank]
        trailing_loop_within [of 0 "rev s" "int (length s)" blank]
        forward_loop_within [of 0 s "int (length s)" "- 1" blank]
  by simp

lemma report_match_valid:
  assumes "match_ok g s m" and "\<not> nullable g"
  shows "list_all (valid_span s) (report_match k m)"
proof -
  have "m_length m \<noteq> 0"
  proof
    assume "m_length m = 0"
    then have "[] \<in> lang g" using assms(1) by (simp add: match_ok_def)
    then show False using assms(2) by (simp add: nullable_lang)
  qed
  then show ?thesis using assms(1) by (simp add: report_match_def match_ok_def valid_span_def)
qed

lemma regex_loop_Next:
  "(\<And>e. it \<noteq> Throws e) \<Longrightarrow>
   regex_loop (Next m it) k = (report_match k m @ fst (regex_loop it k), snd (regex_loop it k))"
  by (cases it) (auto split: prod.splits)

lemma regex_loop_valid:
  "iterator_ok g s it \<Longrightarrow> \<not> nullable g \<Longrightarrow> list_all (valid_span s) (fst (regex_loop it k))"
proof (induction it k rule: regex_loop.induct)
  case (3 match "next" m_kind)
  have m: "list_all (valid_span s) (report_match m_kind match)"
    using "3.prems" report_match_valid [of g s match m_kind] by simp
  show ?case
  proof (cases "\<exists>e. next = Throws e")
    case True
    then show ?thesis by auto
  next
    case False
    then have nt: "\<And>e. next \<noteq> Throws e" by simp
    have "list_all (valid_span s) (fst (regex_loop next m_kind))"
      using "3.IH" "3.prems" nt by (cases "next") simp_all
    then show ?thesis
      using m by (simp only: regex_loop_Next [OF nt] fst_conv list_all_append)
  qed
qed simp_all

lemma RegexHighlight_fst: "fst (RegexHighlight it k) = fst (regex_loop it k)"
  by (simp add: RegexHighlight_def split: prod.splits option.splits)

lemma grammar_not_nullable: "(re, g) \<in> set (grammar_table tr) \<Longrightarrow> \<not> nullable g"
  by (auto simp: grammar_table_def GR_HTML_MARKUP_def GR_PHP_FORMAT_def GR_C_FORMAT_def
      GR_PYTHON_FORMAT_def GR_RUBY_FORMAT_def GR_COMMON_PLACEHOLDERS_def Lit_def Plus_def)

lemma pattern_library_grammar: "re \<in> set pattern_library \<Longrightarrow> \<exists>g. (re, g) \<in> set (grammar_table tr)"
  by (auto simp: pattern_library_def grammar_table_def)

lemma Highlight_valid_aux:
  "engine_ok tr iterate s \<Longrightarrow> library_highlighter h \<Longrightarrow>
     list_all (valid_span s) (fst (Highlight blank iterate h s))"
  "engine_ok tr iterate s \<Longrightarrow> list_all library_highlighter hs \<Longrightarrow>
     list_all (valid_span s) (fst (Highlight_subs blank iterate hs s))"
proof (induction blank iterate h s and blank iterate hs s rule: Highlight_Highlight_subs.induct)
  case (1 blank iterate s)
  then show ?case by (simp add: BasicHighlight_valid)
next
  case (2 blank iterate m_re m_kind s)
  then obtain g where g: "(m_re, g) \<in> set (grammar_table tr)"
    using pattern_library_grammar [of m_re tr] by auto
  then have "iterator_ok g s (iterate m_re s)"
    using 2 by (auto simp: engine_ok_def list_all_iff)
  then show ?case
    using regex_loop_valid [of g s "iterate m_re s" m_kind] grammar_not_nullable [OF g]
    by (simp add: RegexHighlight_fst)
next
  case (3 blank iterate m_sub s)
  then show ?case by simp
next
  case (4 blank iterate s)
  then show ?case by simp
next
  case (5 blank iterate h hs s)
  then show ?case
    by (auto split: prod.splits option.splits)
qed

subsection \<open>All highlighters\<close>

lemma percent_d_matches:
  "rx_matches (GR_C_FORMAT classic_traits) (wstr ''%d'')"
  "rx_matches (GR_RUBY_FORMAT classic_traits) (wstr ''%d'')"
  by (simp_all add: GR_C_FORMAT_def GR_RUBY_FORMAT_def wstr_def Lit_def Plus_def Opt_def
      one_of_def classic_traits_def eval_nat_numeral)

lemma demo_engine_ok: "engine_ok classic_traits demo_iterate (wstr ''a %d  '')"
proof -
  have sub: "take 2 (drop 2 (wstr ''a %d  '')) = wstr ''%d''"
    by (simp add: wstr_def)
  have "match_ok (GR_C_FORMAT classic_traits) (wstr ''a %d  '')
          \<lparr>m_size = 6, m_position = 2, m_length = 2\<rparr>"
    "match_ok (GR_RUBY_FORMAT classic_traits) (wstr ''a %d  '')
          \<lparr>m_size = 6, m_position = 2, m_length = 2\<rparr>"
    using percent_d_matches by (simp_all add: match_ok_def sub rx_matches_lang) (simp_all add: wstr_def)
  then show ?thesis
    by (simp add: engine_ok_def grammar_table_def demo_iterate_def RE_distinct)
qed

lemma ForItem_library:
  assumes "ForItem search item kindsMask = Inr (Some h)"
  shows "library_highlighter h"
proof -
  have "library_highlighter html" "library_highlighter placeholders"
    "library_highlighter php_format" "library_highlighter c_format"
    "library_highlighter python_format" "library_highlighter ruby_format"
    "library_highlighter basic"
    by (simp_all add: html_def placeholders_def php_format_def c_format_def python_format_def
        ruby_format_def basic_def pattern_library_def)
  then show ?thesis
    using assms
    by (auto simp: ForItem_def Let_def Add_def add_format_def
        split: sum.splits if_splits)
qed

text \<open>
  Claim C9: every span \<open>[start, end)\<close> that a highlighter emits on a string \<open>s\<close>
  satisfies \<open>0 \<le> start < end \<le> length s\<close>. This holds for the basic highlighter
  with any blank test, for a regex highlighter of each of the six patterns, and for
  every composite of these (so for everything \<^verbatim>\<open>ForItem\<close> returns), also for the spans
  emitted before a \<^verbatim>\<open>regex_error\<close>. The regex engine is not part of the repository; the
  hypothesis \<open>engine_ok\<close> is what the standard promises of it on \<open>s\<close>: each match it
  yields lies inside \<open>s\<close> and is a word of the pattern's language (for whatever code
  units the character classes stand for). That no span is empty follows from the
  patterns: none of the six matches the empty word.
\<close>

theorem spans_within_string:
  assumes "engine_ok tr iterate s" and "library_highlighter h"
  shows "list_all (valid_span s) (fst (Highlight blank iterate h s))"
  using Highlight_valid_aux(1) [OF assms] .

theorem spans_within_string_witness:
  "list_all (valid_span (wstr ''a %d  ''))
     (fst (Highlight u_isblank demo_iterate
            (CompositeSyntaxHighlighter [c_format, BasicSyntaxHighlighter]) (wstr ''a %d  '')))
   \<and> fst (Highlight u_isblank demo_iterate
            (CompositeSyntaxHighlighter [c_format, BasicSyntaxHighlighter]) (wstr ''a %d  ''))
       = [(2, 4, Placeholder), (4, 6, LeadingWhitespace)]"
proof -
  have l: "library_highlighter (CompositeSyntaxHighlighter [c_format, BasicSyntaxHighlighter])"
    by (simp add: c_format_def pattern_library_def)
  have "fst (Highlight u_isblank demo_iterate
            (CompositeSyntaxHighlighter [c_format, BasicSyntaxHighlighter]) (wstr ''a %d  ''))
       = [(2, 4, Placeholder), (4, 6, LeadingWhitespace)]"
    by (simp add: c_format_def demo_iterate_def RegexHighlight_def report_match_def m_empty_def
        BasicHighlight_def wstr_def u_isblank_def blank_step_def)
  then show ?thesis
    using spans_within_string [OF demo_engine_ok l, of u_isblank] by simp
qed

lemma ForItem_spans_within_string:
  assumes "ForItem search item kindsMask = Inr (Some h)" and "engine_ok tr iterate s"
  shows "list_all (valid_span s) (fst (Highlight blank iterate h s))"
  using Highlight_valid_aux(1) [OF assms(2) ForItem_library [OF assms(1)]] .

end
